theory Spec2Isabelle
  imports Main
begin

section \<open>Selectors\<close>

text \<open>
  The parsed selector of \<^verbatim>\<open>css-what\<close>, with the node kinds that the source and
  the specification name: a node is tagged by its \<^verbatim>\<open>type\<close>. A
  \<^verbatim>\<open>pseudo\<close> node has a name and \<^verbatim>\<open>data\<close>, which is \<^verbatim>\<open>null\<close>, a string, or (for
  \<^verbatim>\<open>:not\<close>, \<^verbatim>\<open>:has\<close>, \<^verbatim>\<open>:matches\<close>) a nested list of groups. The attribute node
  keeps its name, action, value and case flag. \<open>FlexibleDescendant\<close> is the internal
  node of type \<^verbatim>\<open>_flexibleDescendant\<close>.
\<close>

datatype selector =
    Tag string
  | Universal
  | Attribute string string string bool
  | Pseudo string pseudo_data
  | Descendant
  | Child
  | Sibling
  | Adjacent
  | FlexibleDescendant
and pseudo_data =
    Null
  | Str string
  | Sub "selector list list"

definition DESCENDANT_TOKEN :: selector where
  "DESCENDANT_TOKEN = Descendant"

definition FLEXIBLE_DESCENDANT_TOKEN :: selector where
  "FLEXIBLE_DESCENDANT_TOKEN = FlexibleDescendant"

definition SCOPE_TOKEN :: selector where
  "SCOPE_TOKEN = Pseudo ''scope'' Null"

text \<open>
  Modelled from the spec: the weight table \<^verbatim>\<open>procedure\<close> (imported from
  \<^verbatim>\<open>./procedure\<close>) is not among the sources. The specification gives every traversal
  kind (descendant, child, sibling, adjacent and the flexible-descendant marker) a
  strictly negative weight and the filter kinds a weight that is not negative. Only the
  sign is read here.
\<close>

fun procedure :: "selector \<Rightarrow> int" where
  "procedure Descendant = - 1"
| "procedure Child = - 1"
| "procedure Sibling = - 1"
| "procedure Adjacent = - 1"
| "procedure FlexibleDescendant = - 1"
| "procedure (Tag n) = 0"
| "procedure Universal = 0"
| "procedure (Attribute n a v i) = 0"
| "procedure (Pseudo n d) = 0"

definition isTraversal :: "selector \<Rightarrow> bool" where
  "isTraversal t = (procedure t < 0)"

definition containsTraversal :: "selector list \<Rightarrow> bool" where
  "containsTraversal t = list_ex isTraversal t"

fun includesScopePseudo :: "selector \<Rightarrow> bool"
  and dataIncludesScope :: "pseudo_data \<Rightarrow> bool" where
  "includesScopePseudo (Pseudo name d) = (name = ''scope'' \<or> dataIncludesScope d)"
| "includesScopePseudo _ = False"
| "dataIncludesScope (Sub tss) = list_ex (list_ex includesScopePseudo) tss"
| "dataIncludesScope _ = False"

section \<open>Values, arrays and the tree adapter\<close>

text \<open>
  A context entry is the module's private \<^verbatim>\<open>PLACEHOLDER_ELEMENT\<close>, a node of the
  caller's tree, or an array. Arrays are objects: \<^verbatim>\<open>:has\<close> writes into the array it
  allocated after closures have captured it, so arrays live in a store and a value
  refers to one by its address. \<open>alloc\<close> is an array literal.
\<close>

datatype 'n jsval =
    PLACEHOLDER_ELEMENT
  | Node 'n
  | ArrayRef nat

record 'n heap =
  cells :: "nat \<Rightarrow> 'n jsval list option"
  nextAddr :: nat

definition alloc :: "'n heap \<Rightarrow> 'n jsval list \<Rightarrow> nat \<times> 'n heap" where
  "alloc h es =
     (nextAddr h, h\<lparr>cells := (cells h)(nextAddr h \<mapsto> es), nextAddr := Suc (nextAddr h)\<rparr>)"

text \<open>The assignment \<^verbatim>\<open>context[0] = elem\<close>; on an empty array JavaScript extends it.\<close>

definition write0 :: "'n heap \<Rightarrow> nat \<Rightarrow> 'n jsval \<Rightarrow> 'n heap" where
  "write0 h a elem =
     h\<lparr>cells := (cells h)(a \<mapsto> (case cells h a of Some (x # xs) \<Rightarrow> elem # xs | _ \<Rightarrow> [elem]))\<rparr>"

definition isArray :: "'n jsval option \<Rightarrow> bool" where
  "isArray v = (case v of Some (ArrayRef a) \<Rightarrow> True | _ \<Rightarrow> False)"

text \<open>
  A predicate is called with one element; it may write the array of a \<^verbatim>\<open>:has\<close>, so a
  call takes the store and returns it. The adapter is the caller's: its accessors read
  the tree, and \<^verbatim>\<open>existsOne\<close> calls the predicate it is given.
\<close>

type_synonym 'n pred = "'n jsval \<Rightarrow> 'n heap \<Rightarrow> bool \<times> 'n heap"

record 'n adapter =
  isTag :: "'n jsval \<Rightarrow> bool"
  getParent :: "'n jsval \<Rightarrow> 'n jsval option"
  getChildren :: "'n jsval \<Rightarrow> 'n jsval list"
  existsOne :: "'n pred \<Rightarrow> 'n jsval list \<Rightarrow> 'n heap \<Rightarrow> bool \<times> 'n heap"

section \<open>Compiled predicates\<close>

text \<open>
  A function value is either one of the two functions of \<^verbatim>\<open>boolbase\<close>, or a
  closure: its code and the variables it captured. \<open>Base\<close> is the closure \<^verbatim>\<open>base\<close> of \<^verbatim>\<open>wrap\<close>, \<open>Combine\<close> the closure \<^verbatim>\<open>combine\<close> of
  \<^verbatim>\<open>reduceRules\<close>, \<open>Not_fn\<close> the closure \<^verbatim>\<open>not\<close> (capturing \<^verbatim>\<open>func\<close> and \<^verbatim>\<open>next\<close>),
  \<open>HasChild\<close> the closure \<^verbatim>\<open>hasChild\<close>, and \<open>Has\<close> the closure \<^verbatim>\<open>has\<close> (capturing
  \<^verbatim>\<open>next\<close>, the wrapped \<^verbatim>\<open>func\<close>, and the address of \<^verbatim>\<open>context\<close> when there is one).
  \<open>Extern\<close> is a function made outside this module (by a leaf builder, or passed as
  \<^verbatim>\<open>rootFunc\<close>), given by what a call of it does.
\<close>

datatype 'n query =
    trueFunc
  | falseFunc
  | Extern "'n pred"
  | Base "'n adapter" "'n query"
  | Combine "'n query" "'n query"
  | Not_fn "'n query" "'n query"
  | HasChild "'n adapter" "'n query"
  | Has "'n adapter" "'n query" "'n query" "nat option"

text \<open>
  The tests \<^verbatim>\<open>f === trueFunc\<close> and \<^verbatim>\<open>f === falseFunc\<close>: identity with the one
  function object of that name, which no closure is.
\<close>

fun isTrueFunc :: "'n query \<Rightarrow> bool" where
  "isTrueFunc trueFunc = True"
| "isTrueFunc f = False"

fun isFalseFunc :: "'n query \<Rightarrow> bool" where
  "isFalseFunc falseFunc = True"
| "isFalseFunc f = False"

primrec call :: "'n query \<Rightarrow> 'n pred" where
  "call trueFunc = (\<lambda>elem h. (True, h))"
| "call falseFunc = (\<lambda>elem h. (False, h))"
| "call (Extern f) = f"
| "call (Base ad next) =
     (\<lambda>elem h. if isTag ad elem then call next elem h else (False, h))"
| "call (Combine a b) =
     (\<lambda>elem h. case call a elem h of
        (True, h1) \<Rightarrow> (True, h1)
      | (False, h1) \<Rightarrow> call b elem h1)"
| "call (Not_fn func next) =
     (\<lambda>elem h. case call func elem h of
        (True, h1) \<Rightarrow> (False, h1)
      | (False, h1) \<Rightarrow> call next elem h1)"
| "call (HasChild ad next) =
     (\<lambda>elem h. if list_ex (isTag ad) (getChildren ad elem) then call next elem h
        else (False, h))"
| "call (Has ad next func slot) =
     (\<lambda>elem h. case call next elem h of
        (False, h1) \<Rightarrow> (False, h1)
      | (True, h1) \<Rightarrow>
          existsOne ad (call func) (getChildren ad elem)
            (case slot of Some a \<Rightarrow> write0 h1 a elem | None \<Rightarrow> h1))"

section \<open>Options, errors and the imported collaborators\<close>

text \<open>
  The options object; an absent flag reads as false (\<^verbatim>\<open>!!options.strict\<close>), an absent
  \<^verbatim>\<open>rootFunc\<close> or \<^verbatim>\<open>context\<close> is \<open>None\<close>. The value returned by \<^verbatim>\<open>compileToken\<close>
  is a function object on which the property \<^verbatim>\<open>shouldTestNextSiblings\<close> has just been
  set; \<open>compiled\<close> reports the function with that property (\<open>None\<close>: the object has no
  such property).
\<close>

record 'n options =
  xmlMode :: bool
  strict :: bool
  rootFunc :: "'n query option"
  options_context :: "'n jsval option"
  adapter :: "'n adapter"

record 'n compiled =
  query :: "'n query"
  shouldTestNextSiblings :: "bool option"

datatype error =
    StrictModeViolation
  | UnsupportedSelectorKind
  | ParseError

text \<open>
  What the module imports and does not define: the parser of \<^verbatim>\<open>css-what\<close>, the pass
  \<^verbatim>\<open>sortRules\<close> (it reorders one group in place) and the dispatch table \<^verbatim>\<open>Rules\<close> of
  leaf builders, called as \<^verbatim>\<open>Rules[rule.type](previous, rule, options, context)\<close>. A
  builder may throw, and it may compile a nested selector, hence allocate: it takes the
  store and returns it with an error or a function. Changes a builder makes inside the
  arguments of a nested pseudo-class are not followed.
\<close>

record 'n externals =
  parse :: "string \<Rightarrow> 'n options \<Rightarrow> error + selector list list"
  sortRules :: "selector list \<Rightarrow> selector list"
  Rules :: "'n heap \<Rightarrow> 'n query \<Rightarrow> selector \<Rightarrow> 'n options \<Rightarrow> 'n jsval option
              \<Rightarrow> 'n heap \<times> (error + 'n query)"

section \<open>The compiler\<close>

definition wrap :: "'n query \<Rightarrow> 'n options \<Rightarrow> 'n query" where
  "wrap next options = Base (adapter options) next"

text \<open>
  \<^verbatim>\<open>hasContext\<close> of \<^verbatim>\<open>absolutize\<close>. A value that is not an array has no \<^verbatim>\<open>length\<close>
  (elements are taken to be plain tree nodes), so the conjunction is false for it.
\<close>

definition hasContext :: "'n adapter \<Rightarrow> 'n heap \<Rightarrow> 'n jsval option \<Rightarrow> bool" where
  "hasContext ad h context =
     (case context of
        Some (ArrayRef a) \<Rightarrow>
          (case cells h a of
             Some es \<Rightarrow>
               length es \<noteq> 0 \<and>
               list_all (\<lambda>e. e = PLACEHOLDER_ELEMENT \<or> getParent ad e \<noteq> None) es
           | None \<Rightarrow> False)
      | _ \<Rightarrow> False)"

text \<open>The body of the \<^verbatim>\<open>forEach\<close> of \<^verbatim>\<open>absolutize\<close>: the group after the call.\<close>

definition absolutizeGroup :: "bool \<Rightarrow> selector list \<Rightarrow> selector list" where
  "absolutizeGroup hasCtx t =
     (if length t > 0 \<and> isTraversal (hd t) \<and> hd t \<noteq> Descendant then SCOPE_TOKEN # t
      else if hasCtx \<and> \<not> list_ex includesScopePseudo t then
        SCOPE_TOKEN # DESCENDANT_TOKEN # t
      else t)"

definition absolutize ::
  "selector list list \<Rightarrow> 'n options \<Rightarrow> 'n heap \<Rightarrow> 'n jsval option \<Rightarrow> selector list list" where
  "absolutize token options h context =
     map (absolutizeGroup (hasContext (adapter options) h context)) token"

text \<open>
  \<^verbatim>\<open>compileRules\<close>: the \<^verbatim>\<open>reduce\<close> over one group, from \<^verbatim>\<open>options.rootFunc\<close> or
  \<^verbatim>\<open>trueFunc\<close>.
\<close>

fun reduceChain ::
  "'n externals \<Rightarrow> 'n heap \<Rightarrow> 'n query \<Rightarrow> selector list \<Rightarrow> 'n options \<Rightarrow> 'n jsval option
     \<Rightarrow> 'n heap \<times> (error + 'n query)" where
  "reduceChain E h previous [] options context = (h, Inr previous)"
| "reduceChain E h previous (rule # rest) options context =
     (if isFalseFunc previous then reduceChain E h falseFunc rest options context
      else case Rules E h previous rule options context of
             (h1, Inl e) \<Rightarrow> (h1, Inl e)
           | (h1, Inr q) \<Rightarrow> reduceChain E h1 q rest options context)"

definition compileRules ::
  "'n externals \<Rightarrow> 'n heap \<Rightarrow> selector list \<Rightarrow> 'n options \<Rightarrow> 'n jsval option
     \<Rightarrow> 'n heap \<times> (error + 'n query)" where
  "compileRules E h rules options context =
     reduceChain E h (case rootFunc options of Some f \<Rightarrow> f | None \<Rightarrow> trueFunc)
       rules options context"

definition reduceRules :: "'n query \<Rightarrow> 'n query \<Rightarrow> 'n query" where
  "reduceRules a b =
     (if isFalseFunc b \<or> isTrueFunc a then a
      else if isFalseFunc a \<or> isTrueFunc b then b
      else Combine a b)"

text \<open>
  The callback of the \<^verbatim>\<open>map\<close> in \<^verbatim>\<open>compileToken\<close>, before it compiles the group: the
  group as it is afterwards (\<^verbatim>\<open>rules[1]\<close> may have been replaced), and whether this
  group sets \<^verbatim>\<open>shouldTestNextSiblings\<close>.
\<close>

definition contextAdjust :: "bool \<Rightarrow> selector list \<Rightarrow> selector list \<times> bool" where
  "contextAdjust isArrayContext rules =
     (if length rules \<ge> 2 then
        (let first = rules ! 0; second = rules ! 1 in
         if (case first of Pseudo name d \<Rightarrow> name \<noteq> ''scope'' | _ \<Rightarrow> True) then (rules, False)
         else if isArrayContext \<and> second = Descendant then
           (rules[1 := FLEXIBLE_DESCENDANT_TOKEN], False)
         else if second = Adjacent \<or> second = Sibling then (rules, True)
         else (rules, False))
      else (rules, False))"

text \<open>
  The \<^verbatim>\<open>map\<close> itself, group by group: the store, the groups as the call leaves them,
  and either the error of the first group that throws or the compiled groups with the
  flag.
\<close>

fun mapGroups ::
  "'n externals \<Rightarrow> bool \<Rightarrow> 'n heap \<Rightarrow> selector list list \<Rightarrow> 'n options \<Rightarrow> 'n jsval option
     \<Rightarrow> 'n heap \<times> selector list list \<times> (error + 'n query list \<times> bool)" where
  "mapGroups E isArrayContext h [] options context = (h, [], Inr ([], False))"
| "mapGroups E isArrayContext h (rules # rest) options context =
     (case contextAdjust isArrayContext rules of
        (rules', hit) \<Rightarrow>
          (case compileRules E h rules' options context of
             (h1, Inl e) \<Rightarrow> (h1, rules' # rest, Inl e)
           | (h1, Inr q) \<Rightarrow>
               (case mapGroups E isArrayContext h1 rest options context of
                  (h2, rest', Inl e) \<Rightarrow> (h2, rules' # rest', Inl e)
                | (h2, rest', Inr (qs, flag)) \<Rightarrow>
                    (h2, rules' # rest', Inr (q # qs, hit \<or> flag)))))"

text \<open>
  Lines 94 to 98 of \<^verbatim>\<open>compileToken\<close>: \<^verbatim>\<open>options.context\<close> wins over the argument, and
  what is left is put into a new array unless the argument was an array.
\<close>

definition resolveContext ::
  "'n heap \<Rightarrow> 'n options \<Rightarrow> 'n jsval option \<Rightarrow> 'n heap \<times> 'n jsval option" where
  "resolveContext h options context =
     (let isArrayContext = isArray context;
          context1 = (case options_context options of Some c \<Rightarrow> Some c | None \<Rightarrow> context)
      in case context1 of
           Some c \<Rightarrow>
             if \<not> isArrayContext then
               (case alloc h [c] of (a, h1) \<Rightarrow> (h1, Some (ArrayRef a)))
             else (h, Some c)
         | None \<Rightarrow> (h, None))"

text \<open>
  \<^verbatim>\<open>compileToken\<close> returns the store, the non-empty groups as the call leaves them
  (they are sorted, absolutized and adjusted in place) and the result.
\<close>

definition compileToken ::
  "'n externals \<Rightarrow> 'n heap \<Rightarrow> selector list list \<Rightarrow> 'n options \<Rightarrow> 'n jsval option
     \<Rightarrow> 'n heap \<times> selector list list \<times> (error + 'n compiled)" where
  "compileToken E h token options context =
     (let token1 = filter (\<lambda>t. length t > 0) token;
          token2 = map (sortRules E) token1;
          isArrayContext = isArray context
      in case resolveContext h options context of
           (h1, context1) \<Rightarrow>
             (case mapGroups E isArrayContext h1 (absolutize token2 options h1 context1)
                     options context1 of
                (h2, token3, Inl e) \<Rightarrow> (h2, token3, Inl e)
              | (h2, token3, Inr (qs, flag)) \<Rightarrow>
                  (h2, token3,
                   Inr \<lparr>query = foldl reduceRules falseFunc qs,
                        shouldTestNextSiblings = Some flag\<rparr>)))"

definition compileUnsafe ::
  "'n externals \<Rightarrow> 'n heap \<Rightarrow> string \<Rightarrow> 'n options \<Rightarrow> 'n jsval option
     \<Rightarrow> 'n heap \<times> (error + 'n compiled)" where
  "compileUnsafe E h selector options context =
     (case parse E selector options of
        Inl e \<Rightarrow> (h, Inl e)
      | Inr token \<Rightarrow>
          (case compileToken E h token options context of (h1, token1, r) \<Rightarrow> (h1, r)))"

text \<open>
  \<^verbatim>\<open>compile\<close> returns the function that \<^verbatim>\<open>wrap\<close> creates; nothing sets a property
  on that new function.
\<close>

definition compile ::
  "'n externals \<Rightarrow> 'n heap \<Rightarrow> string \<Rightarrow> 'n options \<Rightarrow> 'n jsval option
     \<Rightarrow> 'n heap \<times> (error + 'n compiled)" where
  "compile E h selector options context =
     (case compileUnsafe E h selector options context of
        (h1, Inl e) \<Rightarrow> (h1, Inl e)
      | (h1, Inr next) \<Rightarrow>
          (h1, Inr \<lparr>query = wrap (query next) options, shouldTestNextSiblings = None\<rparr>))"

section \<open>The pseudo-classes that compile a nested selector\<close>

text \<open>The object literal \<^verbatim>\<open>opts\<close> of \<^verbatim>\<open>filters.not\<close> and \<^verbatim>\<open>filters.has\<close>: three fields.\<close>

definition deriveOpts :: "'n options \<Rightarrow> 'n options" where
  "deriveOpts options =
     \<lparr>xmlMode = xmlMode options, strict = strict options, rootFunc = None,
      options_context = None, adapter = adapter options\<rparr>"

definition filters_not ::
  "'n externals \<Rightarrow> 'n heap \<Rightarrow> 'n query \<Rightarrow> selector list list \<Rightarrow> 'n options \<Rightarrow> 'n jsval option
     \<Rightarrow> 'n heap \<times> (error + 'n query)" where
  "filters_not E h next token options context =
     (let opts = deriveOpts options in
      if strict opts \<and> (length token > 1 \<or> list_ex containsTraversal token) then
        (h, Inl StrictModeViolation)
      else
        (case compileToken E h token opts context of
           (h1, token1, Inl e) \<Rightarrow> (h1, Inl e)
         | (h1, token1, Inr r) \<Rightarrow>
             (h1, Inr (if isFalseFunc (query r) then next
                       else if isTrueFunc (query r) then falseFunc
                       else Not_fn (query r) next))))"

text \<open>Lines 218 to 220 of \<^verbatim>\<open>filters.has\<close>: the array \<^verbatim>\<open>[PLACEHOLDER_ELEMENT]\<close>, or none.\<close>

definition hasSlot :: "'n heap \<Rightarrow> selector list list \<Rightarrow> 'n heap \<times> nat option" where
  "hasSlot h token =
     (if list_ex containsTraversal token then
        (case alloc h [PLACEHOLDER_ELEMENT] of (a, h1) \<Rightarrow> (h1, Some a))
      else (h, None))"

definition filters_has ::
  "'n externals \<Rightarrow> 'n heap \<Rightarrow> 'n query \<Rightarrow> selector list list \<Rightarrow> 'n options
     \<Rightarrow> 'n heap \<times> (error + 'n query)" where
  "filters_has E h next token options =
     (let ad = adapter options; opts = deriveOpts options in
      case hasSlot h token of
        (h1, slot) \<Rightarrow>
          (case compileToken E h1 token opts (map_option ArrayRef slot) of
             (h2, token1, Inl e) \<Rightarrow> (h2, Inl e)
           | (h2, token1, Inr r) \<Rightarrow>
               (h2, Inr (if isFalseFunc (query r) then falseFunc
                         else if isTrueFunc (query r) then HasChild ad next
                         else Has ad next (wrap (query r) options) slot))))"

definition filters_matches ::
  "'n externals \<Rightarrow> 'n heap \<Rightarrow> 'n query \<Rightarrow> selector list list \<Rightarrow> 'n options \<Rightarrow> 'n jsval option
     \<Rightarrow> 'n heap \<times> (error + 'n query)" where
  "filters_matches E h next token options context =
     (let opts = \<lparr>xmlMode = xmlMode options, strict = strict options, rootFunc = Some next,
                  options_context = None, adapter = adapter options\<rparr>
      in case compileToken E h token opts context of
           (h1, token1, Inl e) \<Rightarrow> (h1, Inl e)
         | (h1, token1, Inr r) \<Rightarrow> (h1, Inr (query r)))"

section \<open>Notions used to state the properties\<close>

text \<open>
  The nodes of a selector: the node itself and, for a pseudo-class whose data is a list
  of groups, every node of those groups, nested ones included.
\<close>

fun nodesOf :: "selector \<Rightarrow> selector list"
  and nodesOfData :: "pseudo_data \<Rightarrow> selector list" where
  "nodesOf (Pseudo name d) = Pseudo name d # nodesOfData d"
| "nodesOf t = [t]"
| "nodesOfData (Sub tss) = concat (map (\<lambda>ts. concat (map nodesOf ts)) tss)"
| "nodesOfData d = []"

definition isScopePseudo :: "selector \<Rightarrow> bool" where
  "isScopePseudo t = (case t of Pseudo name d \<Rightarrow> name = ''scope'' | _ \<Rightarrow> False)"

text \<open>A group that starts with a traversal other than descendant.\<close>

definition startsWithCombinator :: "selector list \<Rightarrow> bool" where
  "startsWithCombinator t = (t \<noteq> [] \<and> isTraversal (hd t) \<and> hd t \<noteq> Descendant)"

text \<open>
  A group whose first node is a \<^verbatim>\<open>:scope\<close> pseudo-class and whose second node is a
  sibling or adjacent traversal.
\<close>

definition scopeThenSibling :: "selector list \<Rightarrow> bool" where
  "scopeThenSibling rules =
     (case rules of
        first # second # rest \<Rightarrow> isScopePseudo first \<and> (second = Adjacent \<or> second = Sibling)
      | _ \<Rightarrow> False)"

text \<open>
  The groups of a call of \<^verbatim>\<open>compileToken\<close> as they enter the \<^verbatim>\<open>map\<close>: the non-empty
  ones, sorted and absolutized. \<open>compiledGroups\<close> is what the \<^verbatim>\<open>map\<close> makes of them:
  the array of the groups' predicates when no group throws.
\<close>

definition preparedGroups ::
  "'n externals \<Rightarrow> 'n heap \<Rightarrow> selector list list \<Rightarrow> 'n options \<Rightarrow> 'n jsval option
     \<Rightarrow> selector list list" where
  "preparedGroups E h token options context =
     (case resolveContext h options context of
        (h1, context1) \<Rightarrow>
          absolutize (map (sortRules E) (filter (\<lambda>t. length t > 0) token)) options h1 context1)"

definition compiledGroups ::
  "'n externals \<Rightarrow> 'n heap \<Rightarrow> selector list list \<Rightarrow> 'n options \<Rightarrow> 'n jsval option
     \<Rightarrow> 'n heap \<times> selector list list \<times> (error + 'n query list \<times> bool)" where
  "compiledGroups E h token options context =
     (case resolveContext h options context of
        (h1, context1) \<Rightarrow>
          mapGroups E (isArray context) h1 (preparedGroups E h token options context)
            options context1)"

subsection \<open>A small tree and collaborators for concrete runs\<close>

text \<open>
  Nodes are numbers: node \<open>n + 1\<close> is the only child of node \<open>n\<close>, up to node 3; every
  node is a tag. \<open>someOf\<close> tests the listed elements from the left and stops at the
  first that passes.
\<close>

fun someOf :: "'n pred \<Rightarrow> 'n jsval list \<Rightarrow> 'n heap \<Rightarrow> bool \<times> 'n heap" where
  "someOf p [] h = (False, h)"
| "someOf p (e # es) h =
     (case p e h of (True, h1) \<Rightarrow> (True, h1) | (False, h1) \<Rightarrow> someOf p es h1)"

definition sampleAdapter :: "nat adapter" where
  "sampleAdapter =
     \<lparr>isTag = (\<lambda>e. case e of Node n \<Rightarrow> True | _ \<Rightarrow> False),
      getParent = (\<lambda>e. case e of Node (Suc n) \<Rightarrow> Some (Node n) | _ \<Rightarrow> None),
      getChildren = (\<lambda>e. case e of Node n \<Rightarrow> (if n < 3 then [Node (Suc n)] else []) | _ \<Rightarrow> []),
      existsOne = someOf\<rparr>"

definition sampleOptions :: "nat options" where
  "sampleOptions =
     \<lparr>xmlMode = False, strict = False, rootFunc = None, options_context = None,
      adapter = sampleAdapter\<rparr>"

definition emptyHeap :: "nat heap" where
  "emptyHeap = \<lparr>cells = (\<lambda>a. None), nextAddr = 0\<rparr>"

text \<open>A store holding one array, \<^verbatim>\<open>[node 1]\<close>, at address 0.\<close>

definition sampleHeap :: "nat heap" where
  "sampleHeap = \<lparr>cells = (\<lambda>a. if a = 0 then Some [Node 1] else None), nextAddr = 1\<rparr>"

text \<open>
  A parser that knows two selectors, a sort that moves nothing, and a table whose
  builder for the universal selector returns the function it is given (as
  \<^verbatim>\<open>*\<close> adds no condition) and whose other builders return a new function that
  rejects every element.
\<close>

definition sampleExternals :: "nat externals" where
  "sampleExternals =
     \<lparr>parse = (\<lambda>selector options.
        if selector = ''*'' then Inr [[Universal]]
        else if selector = '':scope + a'' then
          Inr [[Pseudo ''scope'' Null, Adjacent, Tag ''a'']]
        else Inl ParseError),
      sortRules = (\<lambda>t. t),
      Rules = (\<lambda>h previous rule options context.
        (h, Inr (case rule of Universal \<Rightarrow> previous | _ \<Rightarrow> Extern (\<lambda>elem h1. (False, h1)))))\<rparr>"

text \<open>
  A table with two builders only: the one for \<^verbatim>\<open>*\<close> returns the function it is
  given, the one for a tag name finds that nothing can match and returns
  \<^verbatim>\<open>falseFunc\<close>. Every other kind has no builder.
\<close>

definition stoppingExternals :: "nat externals" where
  "stoppingExternals =
     \<lparr>parse = (\<lambda>selector options. Inl ParseError),
      sortRules = (\<lambda>t. t),
      Rules = (\<lambda>h previous rule options context.
        case rule of
          Universal \<Rightarrow> (h, Inr previous)
        | Tag name \<Rightarrow> (h, Inr falseFunc)
        | _ \<Rightarrow> (h, Inl UnsupportedSelectorKind))\<rparr>"

text \<open>The empty store after a \<^verbatim>\<open>:has\<close> has allocated its array, at address 0.\<close>

definition slotHeap :: "nat heap" where
  "slotHeap =
     \<lparr>cells = (\<lambda>a. if a = 0 then Some [PLACEHOLDER_ELEMENT] else None), nextAddr = 1\<rparr>"

text \<open>
  Modelled from the spec: the builder for pseudo-class nodes (in \<^verbatim>\<open>./pseudos\<close>, reached
  through \<^verbatim>\<open>Rules\<close>) is not among the sources. By the specification the chain compiler
  reaches the recursive pseudo-class compilers through the dispatch table, and the
  source registers \<^verbatim>\<open>filters.not\<close> for that builder to call: the builder for a
  \<^verbatim>\<open>:not\<close> node calls \<^verbatim>\<open>filters.not\<close> with the function so far, the node's groups,
  the options and the context it was given. \<open>dispatchRules n\<close> is such a table for
  arguments nested up to \<open>n\<close> deep; every other node goes to the sample table.
\<close>

primrec dispatchRules ::
  "nat \<Rightarrow> nat heap \<Rightarrow> nat query \<Rightarrow> selector \<Rightarrow> nat options \<Rightarrow> nat jsval option
     \<Rightarrow> nat heap \<times> (error + nat query)" where
  "dispatchRules 0 = Rules sampleExternals"
| "dispatchRules (Suc n) =
     (\<lambda>h previous rule options context.
        case rule of
          Pseudo name (Sub token) \<Rightarrow>
            if name = ''not'' then
              filters_not (sampleExternals\<lparr>Rules := dispatchRules n\<rparr>) h previous token
                options context
            else Rules sampleExternals h previous rule options context
        | _ \<Rightarrow> Rules sampleExternals h previous rule options context)"

definition dispatchExternals :: "nat \<Rightarrow> nat externals" where
  "dispatchExternals n = sampleExternals\<lparr>Rules := dispatchRules n\<rparr>"

section \<open>The two constant functions\<close>

lemma isTrueFunc_iff [simp]: "isTrueFunc f \<longleftrightarrow> f = trueFunc"
  by (cases f) simp_all

lemma isFalseFunc_iff [simp]: "isFalseFunc f \<longleftrightarrow> f = falseFunc"
  by (cases f) simp_all

section \<open>The absolutizer\<close>

lemma absolutizeGroup_cases:
  "absolutizeGroup hc t =
     (if startsWithCombinator t then Pseudo ''scope'' Null # t
      else if hc \<and> \<not> list_ex includesScopePseudo t then
        Pseudo ''scope'' Null # Descendant # t
      else t)"
  by (simp add: absolutizeGroup_def startsWithCombinator_def SCOPE_TOKEN_def
      DESCENDANT_TOKEN_def)

lemma includesScopePseudo_nodes:
  "includesScopePseudo t = list_ex isScopePseudo (nodesOf t)"
  "dataIncludesScope d = list_ex isScopePseudo (nodesOfData d)"
  by (induction t and d rule: includesScopePseudo_dataIncludesScope.induct)
     (auto simp add: isScopePseudo_def list_ex_iff)

lemma includesScopePseudo_group:
  "list_ex includesScopePseudo t = list_ex isScopePseudo (concat (map nodesOf t))"
  by (auto simp add: list_ex_iff includesScopePseudo_nodes)

lemma hasContext_iff:
  "hasContext ad h context \<longleftrightarrow>
     (\<exists>a es. context = Some (ArrayRef a) \<and> cells h a = Some es \<and> es \<noteq> [] \<and>
        (\<forall>e \<in> set es. e = PLACEHOLDER_ELEMENT \<or> getParent ad e \<noteq> None))"
  by (auto simp add: hasContext_def list_all_iff split: option.splits jsval.splits)

text \<open>
  Claim C1, as the code has it: a group whose first node is a traversal other than
  descendant is not left unchanged. The absolutizer prepends to it exactly one node, the
  explicit \<^verbatim>\<open>:scope\<close> node, and no descendant marker, with or without a context. A
  group is changed only in that case, or when a context is present and the group holds
  no \<^verbatim>\<open>:scope\<close>.
\<close>

theorem absolutize_leading_traversal:
  "length (absolutize token options h context) = length token \<and>
   (\<forall>i < length token.
      (startsWithCombinator (token ! i)
         \<longrightarrow> absolutize token options h context ! i = Pseudo ''scope'' Null # token ! i) \<and>
      (absolutize token options h context ! i \<noteq> token ! i
         \<longrightarrow> startsWithCombinator (token ! i)
             \<or> (hasContext (adapter options) h context
                \<and> \<not> list_ex includesScopePseudo (token ! i))))"
  by (simp add: absolutize_def absolutizeGroup_cases)

text \<open>
  The group \<^verbatim>\<open>> div\<close> with no context: the first group gets \<^verbatim>\<open>:scope\<close>, the group
  \<^verbatim>\<open>a\<close> beside it stays as it is.
\<close>

theorem absolutize_leading_traversal_witness:
  "absolutize [[Child, Tag ''div''], [Tag ''a'']] sampleOptions emptyHeap None ! 0
     = [Pseudo ''scope'' Null, Child, Tag ''div''] \<and>
   absolutize [[Child, Tag ''div''], [Tag ''a'']] sampleOptions emptyHeap None ! 1 = [Tag ''a'']"
  using absolutize_leading_traversal
    [of "[[Child, Tag ''div''], [Tag ''a'']]" sampleOptions emptyHeap None]
  by (auto simp add: startsWithCombinator_def isTraversal_def hasContext_def)

text \<open>
  Claim C1 as stated fails: the group \<^verbatim>\<open>> div\<close>, whose first node is the child
  traversal, does not stay unchanged; \<^verbatim>\<open>:scope\<close> is put in front of it.
\<close>

theorem absolutize_unchanged_counterexample:
  "absolutize [[Child, Tag ''div'']] sampleOptions emptyHeap None
     = [[Pseudo ''scope'' Null, Child, Tag ''div'']] \<and>
   absolutize [[Child, Tag ''div'']] sampleOptions emptyHeap None \<noteq> [[Child, Tag ''div'']]"
  by (simp add: absolutize_def absolutizeGroup_cases startsWithCombinator_def isTraversal_def)

text \<open>
  Claim C9: a context is present exactly when the context is a non-empty array whose
  every entry is the placeholder or has a parent by the adapter. For a group that does
  not start with a traversal other than descendant: when a context is present and no
  node of the group, nested pseudo-class arguments included, is a \<^verbatim>\<open>:scope\<close>
  pseudo-class, the group becomes \<^verbatim>\<open>:scope\<close>, the descendant marker, then the group;
  otherwise it is unchanged.
\<close>

theorem absolutize_context:
  "(hasContext (adapter options) h context \<longleftrightarrow>
      (\<exists>a es. context = Some (ArrayRef a) \<and> cells h a = Some es \<and> es \<noteq> [] \<and>
         (\<forall>e \<in> set es. e = PLACEHOLDER_ELEMENT \<or> getParent (adapter options) e \<noteq> None))) \<and>
   (\<forall>i < length token.
      \<not> startsWithCombinator (token ! i) \<longrightarrow>
        absolutize token options h context ! i =
          (if hasContext (adapter options) h context
              \<and> \<not> list_ex isScopePseudo (concat (map nodesOf (token ! i)))
           then Pseudo ''scope'' Null # Descendant # token ! i
           else token ! i))"
proof (rule conjI)
  show "hasContext (adapter options) h context \<longleftrightarrow>
      (\<exists>a es. context = Some (ArrayRef a) \<and> cells h a = Some es \<and> es \<noteq> [] \<and>
         (\<forall>e \<in> set es. e = PLACEHOLDER_ELEMENT \<or> getParent (adapter options) e \<noteq> None))"
    by (rule hasContext_iff)
next
  show "\<forall>i < length token.
      \<not> startsWithCombinator (token ! i) \<longrightarrow>
        absolutize token options h context ! i =
          (if hasContext (adapter options) h context
              \<and> \<not> list_ex isScopePseudo (concat (map nodesOf (token ! i)))
           then Pseudo ''scope'' Null # Descendant # token ! i
           else token ! i)"
    by (simp add: absolutize_def absolutizeGroup_cases includesScopePseudo_group)
qed

text \<open>
  With the array \<^verbatim>\<open>[node 1]\<close> as context (node 1 has a parent), the group \<^verbatim>\<open>a\<close> is
  anchored and the group \<^verbatim>\<open>:not(:scope)\<close>, which holds a nested \<^verbatim>\<open>:scope\<close>, is not.
\<close>

theorem absolutize_context_witness:
  "hasContext sampleAdapter sampleHeap (Some (ArrayRef 0)) \<and>
   absolutize [[Tag ''a''], [Pseudo ''not'' (Sub [[Pseudo ''scope'' Null]])]]
       sampleOptions sampleHeap (Some (ArrayRef 0)) ! 0
     = [Pseudo ''scope'' Null, Descendant, Tag ''a''] \<and>
   absolutize [[Tag ''a''], [Pseudo ''not'' (Sub [[Pseudo ''scope'' Null]])]]
       sampleOptions sampleHeap (Some (ArrayRef 0)) ! 1
     = [Pseudo ''not'' (Sub [[Pseudo ''scope'' Null]])]"
proof -
  have ad: "adapter sampleOptions = sampleAdapter"
    by (simp add: sampleOptions_def)
  have present: "hasContext sampleAdapter sampleHeap (Some (ArrayRef 0))"
    by (simp add: hasContext_def sampleHeap_def sampleAdapter_def)
  show ?thesis
    using present absolutize_context
      [of sampleOptions sampleHeap "Some (ArrayRef 0)"
          "[[Tag ''a''], [Pseudo ''not'' (Sub [[Pseudo ''scope'' Null]])]]"]
    by (simp add: ad startsWithCombinator_def isTraversal_def isScopePseudo_def nth_Cons')
qed

section \<open>One rule chain\<close>

lemma reduceChain_false:
  "reduceChain E h falseFunc rest options context = (h, Inr falseFunc)"
  by (induction rest) simp_all

lemma reduceChain_append:
  "reduceChain E h previous (xs @ ys) options context =
     (case reduceChain E h previous xs options context of
        (h1, Inl e) \<Rightarrow> (h1, Inl e)
      | (h1, Inr q) \<Rightarrow> reduceChain E h1 q ys options context)"
  by (induction xs arbitrary: h previous) (auto split: prod.splits sum.splits)

lemma reduceChain_agree:
  "(\<forall>h p r. r \<in> set xs \<longrightarrow> Rules E' h p r options context = Rules E h p r options context)
    \<Longrightarrow> reduceChain E' h previous xs options context = reduceChain E h previous xs options context"
proof (induction xs arbitrary: h previous)
  case Nil
  show ?case by simp
next
  case (Cons x xs)
  have here: "Rules E' h previous x options context = Rules E h previous x options context"
    using Cons.prems by simp
  have rest: "\<And>h p. reduceChain E' h p xs options context = reduceChain E h p xs options context"
    using Cons.IH Cons.prems by simp
  show ?case
    by (simp only: reduceChain.simps here rest)
qed

lemma compileRules_snoc:
  "compileRules E h (rules @ [rule]) options context =
     (case compileRules E h rules options context of
        (h1, Inl e) \<Rightarrow> (h1, Inl e)
      | (h1, Inr previous) \<Rightarrow>
          if previous = falseFunc then (h1, Inr falseFunc)
          else Rules E h1 previous rule options context)"
proof -
  obtain h1 r where c: "compileRules E h rules options context = (h1, r)"
    by (cases "compileRules E h rules options context")
  then have r: "reduceChain E h (case rootFunc options of Some f \<Rightarrow> f | None \<Rightarrow> trueFunc)
       rules options context = (h1, r)"
    by (simp add: compileRules_def)
  show ?thesis
  proof (cases r)
    case (Inl e)
    with c r show ?thesis
      by (simp add: compileRules_def reduceChain_append)
  next
    case (Inr q)
    obtain h2 r2 where s: "Rules E h1 q rule options context = (h2, r2)"
      by (cases "Rules E h1 q rule options context")
    from Inr c r s show ?thesis
      by (cases r2) (simp_all add: compileRules_def reduceChain_append)
  qed
qed

lemma compileRules_stop:
  assumes stop: "compileRules E h rules options context = (h1, Inr falseFunc)"
    and agree: "\<forall>h p r. r \<in> set rules \<longrightarrow>
            Rules E' h p r options context = Rules E h p r options context"
  shows "compileRules E' h (rules @ rest) options context = (h1, Inr falseFunc)"
proof -
  have "reduceChain E' h (case rootFunc options of Some f \<Rightarrow> f | None \<Rightarrow> trueFunc)
       rules options context = (h1, Inr falseFunc)"
    using stop reduceChain_agree [OF agree] by (simp add: compileRules_def)
  then show ?thesis
    by (simp add: compileRules_def reduceChain_append reduceChain_false)
qed

text \<open>
  Claim C7: a chain is folded from the left, starting from \<^verbatim>\<open>options.rootFunc\<close> when
  there is one and from \<^verbatim>\<open>trueFunc\<close> otherwise: the empty chain gives the start, and a
  chain with one more node at its end gives that node's builder applied to the result so
  far. Once the result so far is \<^verbatim>\<open>falseFunc\<close> the chain's result is \<^verbatim>\<open>falseFunc\<close>
  with the store as it was, whatever nodes follow and whatever the table would do for
  them: no builder is called again.
\<close>

theorem compileRules_fold:
  "compileRules E h [] options context =
     (h, Inr (case rootFunc options of Some f \<Rightarrow> f | None \<Rightarrow> trueFunc)) \<and>
   compileRules E h (rules @ [rule]) options context =
     (case compileRules E h rules options context of
        (h1, Inl e) \<Rightarrow> (h1, Inl e)
      | (h1, Inr previous) \<Rightarrow>
          if previous = falseFunc then (h1, Inr falseFunc)
          else Rules E h1 previous rule options context) \<and>
   (compileRules E h rules options context = (h', Inr falseFunc) \<longrightarrow>
      (\<forall>E' rest.
         (\<forall>h p r. r \<in> set rules \<longrightarrow>
            Rules E' h p r options context = Rules E h p r options context) \<longrightarrow>
         compileRules E' h (rules @ rest) options context = (h', Inr falseFunc)))"
proof (intro conjI impI allI)
  show "compileRules E h [] options context =
     (h, Inr (case rootFunc options of Some f \<Rightarrow> f | None \<Rightarrow> trueFunc))"
    by (simp add: compileRules_def)
next
  show "compileRules E h (rules @ [rule]) options context =
     (case compileRules E h rules options context of
        (h1, Inl e) \<Rightarrow> (h1, Inl e)
      | (h1, Inr previous) \<Rightarrow>
          if previous = falseFunc then (h1, Inr falseFunc)
          else Rules E h1 previous rule options context)"
    by (rule compileRules_snoc)
next
  fix E' :: "'a externals" and rest
  assume stop: "compileRules E h rules options context = (h', Inr falseFunc)"
  assume agree: "\<forall>h p r. r \<in> set rules \<longrightarrow>
            Rules E' h p r options context = Rules E h p r options context"
  from stop agree
  show "compileRules E' h (rules @ rest) options context = (h', Inr falseFunc)"
    by (rule compileRules_stop)
qed

text \<open>
  The chain \<^verbatim>\<open>*a\<close> stops at the tag name; with \<^verbatim>\<open>> *\<close> after it the result is the
  same, although the table has no builder for the child traversal.
\<close>

theorem compileRules_fold_witness:
  "compileRules stoppingExternals emptyHeap [Universal, Tag ''a''] sampleOptions None
     = (emptyHeap, Inr falseFunc) \<and>
   compileRules stoppingExternals emptyHeap ([Universal, Tag ''a''] @ [Child, Universal])
       sampleOptions None
     = (emptyHeap, Inr falseFunc) \<and>
   compileRules stoppingExternals emptyHeap [Child, Universal] sampleOptions None
     = (emptyHeap, Inl UnsupportedSelectorKind)"
proof -
  have stop: "compileRules stoppingExternals emptyHeap [Universal, Tag ''a''] sampleOptions None
     = (emptyHeap, Inr falseFunc)"
    by (simp add: compileRules_def stoppingExternals_def sampleOptions_def)
  have none: "compileRules stoppingExternals emptyHeap [Child, Universal] sampleOptions None
     = (emptyHeap, Inl UnsupportedSelectorKind)"
    by (simp add: compileRules_def stoppingExternals_def sampleOptions_def)
  have "\<forall>E' rest.
         (\<forall>h p r. r \<in> set [Universal, Tag ''a''] \<longrightarrow>
            Rules E' h p r sampleOptions None = Rules stoppingExternals h p r sampleOptions None) \<longrightarrow>
         compileRules E' emptyHeap ([Universal, Tag ''a''] @ rest) sampleOptions None
           = (emptyHeap, Inr falseFunc)"
    using stop compileRules_fold
      [where E = stoppingExternals and h = emptyHeap and rules = "[Universal, Tag ''a'']"
         and options = sampleOptions and h' = emptyHeap]
    by blast
  then have "compileRules stoppingExternals emptyHeap ([Universal, Tag ''a''] @ [Child, Universal])
       sampleOptions None = (emptyHeap, Inr falseFunc)"
    by blast
  with stop none show ?thesis by blast
qed

section \<open>The reduction over the groups\<close>

text \<open>
  Claim C6: when either operand is \<^verbatim>\<open>falseFunc\<close> the result is the other operand
  itself; when either operand is \<^verbatim>\<open>trueFunc\<close> the result is \<^verbatim>\<open>trueFunc\<close>, and no
  closure is made; otherwise the result is the closure \<^verbatim>\<open>combine\<close>, and a call of it
  calls the left operand first and the right operand only when the left returned false.
\<close>

theorem reduceRules_cases:
  "(b = falseFunc \<longrightarrow> reduceRules a b = a) \<and>
   (a = falseFunc \<longrightarrow> reduceRules a b = b) \<and>
   (a = trueFunc \<or> b = trueFunc \<longrightarrow> reduceRules a b = trueFunc) \<and>
   (a \<noteq> falseFunc \<and> a \<noteq> trueFunc \<and> b \<noteq> falseFunc \<and> b \<noteq> trueFunc \<longrightarrow>
      reduceRules a b = Combine a b \<and>
      (\<forall>elem h. call (reduceRules a b) elem h =
         (case call a elem h of
            (True, h1) \<Rightarrow> (True, h1)
          | (False, h1) \<Rightarrow> call b elem h1)))"
  by (auto simp add: reduceRules_def)

text \<open>
  The left operand accepts tags; the right operand is a \<^verbatim>\<open>has\<close> closure that writes
  its array at address 0. On node 2 the left operand is true and the array is not
  written; on the placeholder, which is no tag, the right operand runs and writes it.
\<close>

theorem reduceRules_cases_witness:
  "reduceRules falseFunc (Base sampleAdapter trueFunc) = Base sampleAdapter trueFunc \<and>
   reduceRules (Base sampleAdapter trueFunc) falseFunc = Base sampleAdapter trueFunc \<and>
   reduceRules trueFunc (Base sampleAdapter trueFunc) = trueFunc \<and>
   reduceRules (Base sampleAdapter trueFunc) trueFunc = trueFunc \<and>
   reduceRules (Base sampleAdapter trueFunc)
       (Has sampleAdapter trueFunc (Base sampleAdapter trueFunc) (Some 0))
     = Combine (Base sampleAdapter trueFunc)
         (Has sampleAdapter trueFunc (Base sampleAdapter trueFunc) (Some 0)) \<and>
   call (reduceRules (Base sampleAdapter trueFunc)
       (Has sampleAdapter trueFunc (Base sampleAdapter trueFunc) (Some 0))) (Node 2) sampleHeap
     = (True, sampleHeap) \<and>
   call (reduceRules (Base sampleAdapter trueFunc)
       (Has sampleAdapter trueFunc (Base sampleAdapter trueFunc) (Some 0)))
       PLACEHOLDER_ELEMENT sampleHeap
     = (False, write0 sampleHeap 0 PLACEHOLDER_ELEMENT)"
  using reduceRules_cases [of "Base sampleAdapter trueFunc" falseFunc]
    reduceRules_cases [of falseFunc "Base sampleAdapter trueFunc"]
    reduceRules_cases [of trueFunc "Base sampleAdapter trueFunc"]
    reduceRules_cases [of "Base sampleAdapter trueFunc" trueFunc]
    reduceRules_cases [of "Has sampleAdapter trueFunc (Base sampleAdapter trueFunc) (Some 0)"
      "Base sampleAdapter trueFunc"]
  by (simp add: sampleAdapter_def)

section \<open>The groups of one compilation\<close>

lemma contextAdjust_unfold:
  "contextAdjust ia [] = ([], False)"
  "contextAdjust ia [x] = ([x], False)"
  "contextAdjust ia (first # second # rest) =
     (if \<not> isScopePseudo first then (first # second # rest, False)
      else if ia \<and> second = Descendant then (first # FlexibleDescendant # rest, False)
      else if second = Adjacent \<or> second = Sibling then (first # second # rest, True)
      else (first # second # rest, False))"
  by (simp_all add: contextAdjust_def isScopePseudo_def FLEXIBLE_DESCENDANT_TOKEN_def
      split: selector.splits)


lemma contextAdjust_flag:
  "snd (contextAdjust ia rules) = scopeThenSibling rules"
proof (cases rules)
  case Nil
  then show ?thesis by (simp add: contextAdjust_unfold scopeThenSibling_def)
next
  case (Cons first tail)
  then show ?thesis
    by (cases tail) (auto simp add: contextAdjust_unfold scopeThenSibling_def)
qed

lemma scopeThenSibling_adjusted:
  "scopeThenSibling (fst (contextAdjust ia rules)) = scopeThenSibling rules"
proof (cases rules)
  case Nil
  then show ?thesis by (simp add: contextAdjust_unfold)
next
  case (Cons first tail)
  then show ?thesis
    by (cases tail) (auto simp add: contextAdjust_unfold scopeThenSibling_def)
qed

lemma mapGroups_success:
  "mapGroups E ia h gs options context = (h', tk, Inr (qs, flag)) \<Longrightarrow>
     tk = map (\<lambda>g. fst (contextAdjust ia g)) gs \<and>
     flag = list_ex scopeThenSibling gs \<and> length qs = length gs"
proof (induction gs arbitrary: h h' tk qs flag)
  case Nil
  then show ?case by simp
next
  case (Cons g gs)
  obtain g' hit where adj: "contextAdjust ia g = (g', hit)"
    by (cases "contextAdjust ia g")
  obtain h1 r1 where cr: "compileRules E h g' options context = (h1, r1)"
    by (cases "compileRules E h g' options context")
  obtain h2 tk2 r2 where mg: "mapGroups E ia h1 gs options context = (h2, tk2, r2)"
    by (cases "mapGroups E ia h1 gs options context")
  from Cons.prems adj cr obtain q where r1: "r1 = Inr q"
    by (cases r1) simp_all
  from Cons.prems adj cr mg r1 obtain qs2 flag2 where r2: "r2 = Inr (qs2, flag2)"
    by (cases r2) auto
  from Cons.prems adj cr mg r1 r2
  have parts: "h' = h2" "tk = g' # tk2" "qs = q # qs2" "flag = (hit \<or> flag2)"
    by simp_all
  from mg r2 have ih: "tk2 = map (\<lambda>g. fst (contextAdjust ia g)) gs \<and>
     flag2 = list_ex scopeThenSibling gs \<and> length qs2 = length gs"
    using Cons.IH by simp
  have hit: "hit = scopeThenSibling g"
    using adj contextAdjust_flag [of ia g] by simp
  show ?case
    using parts ih hit adj by simp
qed


lemma compileToken_compiledGroups:
  "compileToken E h token options context =
     (case compiledGroups E h token options context of
        (h2, tk, Inl e) \<Rightarrow> (h2, tk, Inl e)
      | (h2, tk, Inr (qs, flag)) \<Rightarrow>
          (h2, tk, Inr \<lparr>query = foldl reduceRules falseFunc qs,
                        shouldTestNextSiblings = Some flag\<rparr>))"
  by (simp add: compileToken_def compiledGroups_def preparedGroups_def split: prod.splits)

lemma compileToken_success:
  assumes "compileToken E h token options context = (h', tk, Inr r)"
  shows "\<exists>qs flag. compiledGroups E h token options context = (h', tk, Inr (qs, flag)) \<and>
           query r = foldl reduceRules falseFunc qs \<and>
           shouldTestNextSiblings r = Some flag"
proof -
  obtain h2 tk2 r2 where cg: "compiledGroups E h token options context = (h2, tk2, r2)"
    by (cases "compiledGroups E h token options context")
  show ?thesis
  proof (cases r2)
    case (Inl e)
    with cg assms show ?thesis
      by (simp add: compileToken_compiledGroups)
  next
    case (Inr p)
    obtain qs flag where p: "p = (qs, flag)" by (cases p)
    with Inr cg assms show ?thesis
      by (auto simp add: compileToken_compiledGroups)
  qed
qed

lemma reduceRules_true:
  "reduceRules a b = trueFunc \<longleftrightarrow> a = trueFunc \<or> b = trueFunc"
  by (auto simp add: reduceRules_def)

lemma foldl_reduceRules_true:
  "foldl reduceRules a qs = trueFunc \<longleftrightarrow> a = trueFunc \<or> trueFunc \<in> set qs"
  by (induction qs arbitrary: a) (auto simp add: reduceRules_true)

section \<open>Compilation of a selector list\<close>


lemma compiledGroups_success:
  assumes "compiledGroups E h token options context = (h', tk, Inr (qs, flag))"
  shows "tk = map (\<lambda>g. fst (contextAdjust (isArray context) g))
                (preparedGroups E h token options context) \<and>
         flag = list_ex scopeThenSibling (preparedGroups E h token options context)"
proof -
  obtain h1 c1 where rc: "resolveContext h options context = (h1, c1)"
    by (cases "resolveContext h options context")
  with assms have "mapGroups E (isArray context) h1 (preparedGroups E h token options context)
      options c1 = (h', tk, Inr (qs, flag))"
    by (simp add: compiledGroups_def)
  then show ?thesis
    using mapGroups_success by blast
qed

lemma list_ex_scopeThenSibling_adjusted:
  "list_ex scopeThenSibling (map (\<lambda>g. fst (contextAdjust ia g)) gs)
     = list_ex scopeThenSibling gs"
  by (induction gs) (simp_all add: scopeThenSibling_adjusted)

lemma compile_wraps:
  assumes "compile E h selector options context = (h', Inr r)"
  shows "\<exists>next. compileUnsafe E h selector options context = (h', Inr next) \<and>
           r = \<lparr>query = Base (adapter options) (query next), shouldTestNextSiblings = None\<rparr>"
proof -
  obtain h1 r1 where cu: "compileUnsafe E h selector options context = (h1, r1)"
    by (cases "compileUnsafe E h selector options context")
  with assms show ?thesis
    by (cases r1) (auto simp add: compile_def wrap_def)
qed

lemma compileUnsafe_parses:
  assumes "compileUnsafe E h selector options context = (h', Inr r)"
  shows "\<exists>token tk. parse E selector options = Inr token \<and>
           compileToken E h token options context = (h', tk, Inr r)"
proof (cases "parse E selector options")
  case (Inl e)
  with assms show ?thesis by (simp add: compileUnsafe_def)
next
  case (Inr token)
  obtain h1 tk r1 where ct: "compileToken E h token options context = (h1, tk, r1)"
    by (cases "compileToken E h token options context")
  with Inr assms show ?thesis by (simp add: compileUnsafe_def)
qed

subsection \<open>Concrete runs\<close>

lemmas sample_simps =
  compileToken_def resolveContext_def isArray_def absolutize_def absolutizeGroup_def
  hasContext_def isTraversal_def contextAdjust_def compileRules_def reduceRules_def
  sampleExternals_def sampleOptions_def sampleAdapter_def emptyHeap_def sampleHeap_def
  compileUnsafe_def compile_def wrap_def alloc_def SCOPE_TOKEN_def DESCENDANT_TOKEN_def
  FLEXIBLE_DESCENDANT_TOKEN_def

lemma sample_scope_adjacent:
  "compileToken sampleExternals emptyHeap
       [[Pseudo ''scope'' Null, Adjacent, Tag ''a''], [Tag ''b'']] sampleOptions None
     = (emptyHeap, [[Pseudo ''scope'' Null, Adjacent, Tag ''a''], [Tag ''b'']],
        Inr \<lparr>query = Combine (Extern (\<lambda>elem h1. (False, h1))) (Extern (\<lambda>elem h1. (False, h1))),
             shouldTestNextSiblings = Some True\<rparr>)"
  by (simp add: sample_simps)

lemma sample_compile_scope_adjacent:
  "compile sampleExternals emptyHeap '':scope + a'' sampleOptions None
     = (emptyHeap,
        Inr \<lparr>query = Base sampleAdapter (Extern (\<lambda>elem h1. (False, h1))),
             shouldTestNextSiblings = None\<rparr>)"
  by (simp add: sample_simps)

lemma sample_compileUnsafe_scope_adjacent:
  "compileUnsafe sampleExternals emptyHeap '':scope + a'' sampleOptions None
     = (emptyHeap,
        Inr \<lparr>query = Extern (\<lambda>elem h1. (False, h1)), shouldTestNextSiblings = Some True\<rparr>)"
  by (simp add: sample_simps)

lemma sample_compile_universal:
  "compile sampleExternals emptyHeap ''*'' sampleOptions None
     = (emptyHeap, Inr \<lparr>query = Base sampleAdapter trueFunc, shouldTestNextSiblings = None\<rparr>)"
  by (simp add: sample_simps)

lemma sample_compileUnsafe_universal:
  "compileUnsafe sampleExternals emptyHeap ''*'' sampleOptions None
     = (emptyHeap, Inr \<lparr>query = trueFunc, shouldTestNextSiblings = Some False\<rparr>)"
  by (simp add: sample_simps)

lemma sample_compileToken_universal:
  "compileToken sampleExternals emptyHeap [[Universal], [Tag ''b'']] sampleOptions None
     = (emptyHeap, [[Universal], [Tag ''b'']], Inr \<lparr>query = trueFunc, shouldTestNextSiblings = Some False\<rparr>)"
  by (simp add: sample_simps)



subsection \<open>The flag on the returned function\<close>

text \<open>
  Claim C2, as the code has it: the function that \<^verbatim>\<open>compileToken\<close> returns, which
  \<^verbatim>\<open>compileUnsafe\<close> passes on, carries \<^verbatim>\<open>shouldTestNextSiblings\<close>, and the flag is
  true exactly when some group, as compilation leaves the groups (non-empty, sorted,
  absolutized), has a \<^verbatim>\<open>:scope\<close> pseudo-class as first node and a sibling or adjacent
  traversal as second node. The function that the entry point \<^verbatim>\<open>compile\<close> returns is
  the new closure of \<^verbatim>\<open>wrap\<close>, which carries no such property.
\<close>

theorem compileToken_flag:
  "(compileToken E h token options context = (h', tk, Inr r) \<longrightarrow>
      shouldTestNextSiblings r = Some (list_ex scopeThenSibling tk) \<and>
      list_ex scopeThenSibling tk
        = list_ex scopeThenSibling (preparedGroups E h token options context)) \<and>
   (compileUnsafe E h selector options context = (h', Inr r) \<longrightarrow>
      (\<exists>parsed. parse E selector options = Inr parsed \<and>
         shouldTestNextSiblings r
           = Some (list_ex scopeThenSibling (preparedGroups E h parsed options context)))) \<and>
   (compile E h selector options context = (h', Inr r) \<longrightarrow>
      shouldTestNextSiblings r = None)"
proof -
  have token_case: "shouldTestNextSiblings r = Some (list_ex scopeThenSibling tk) \<and>
      list_ex scopeThenSibling tk
        = list_ex scopeThenSibling (preparedGroups E h token options context)"
    if "compileToken E h token options context = (h', tk, Inr r)"
    for token tk
  proof -
    from that obtain qs flag where
      cg: "compiledGroups E h token options context = (h', tk, Inr (qs, flag))"
      and fl: "shouldTestNextSiblings r = Some flag"
      using compileToken_success by blast
    from cg have "tk = map (\<lambda>g. fst (contextAdjust (isArray context) g))
                (preparedGroups E h token options context)"
      and "flag = list_ex scopeThenSibling (preparedGroups E h token options context)"
      using compiledGroups_success by blast+
    with fl show ?thesis
      by (simp add: list_ex_scopeThenSibling_adjusted)
  qed
  have unsafe_case: "\<exists>parsed. parse E selector options = Inr parsed \<and>
         shouldTestNextSiblings r
           = Some (list_ex scopeThenSibling (preparedGroups E h parsed options context))"
    if "compileUnsafe E h selector options context = (h', Inr r)"
  proof -
    from that obtain parsed tk where "parse E selector options = Inr parsed"
      and "compileToken E h parsed options context = (h', tk, Inr r)"
      using compileUnsafe_parses by blast
    then show ?thesis
      using token_case by auto
  qed
  have compile_case: "shouldTestNextSiblings r = None"
    if "compile E h selector options context = (h', Inr r)"
    using compile_wraps [OF that] by auto
  from token_case unsafe_case compile_case show ?thesis
    by blast
qed

text \<open>
  The groups \<^verbatim>\<open>:scope + a, b\<close> through \<^verbatim>\<open>compileToken\<close>: the flag is set. The
  selector \<^verbatim>\<open>*\<close> through \<^verbatim>\<open>compile\<close>: the function returned has no such property.
\<close>

theorem compileToken_flag_witness:
  "compileToken sampleExternals emptyHeap
       [[Pseudo ''scope'' Null, Adjacent, Tag ''a''], [Tag ''b'']] sampleOptions None
     = (emptyHeap, [[Pseudo ''scope'' Null, Adjacent, Tag ''a''], [Tag ''b'']],
        Inr \<lparr>query = Combine (Extern (\<lambda>elem h1. (False, h1))) (Extern (\<lambda>elem h1. (False, h1))),
             shouldTestNextSiblings = Some True\<rparr>) \<and>
   list_ex scopeThenSibling [[Pseudo ''scope'' Null, Adjacent, Tag ''a''], [Tag ''b'']] \<and>
   list_ex scopeThenSibling (preparedGroups sampleExternals emptyHeap
       [[Pseudo ''scope'' Null, Adjacent, Tag ''a''], [Tag ''b'']] sampleOptions None) \<and>
   shouldTestNextSiblings
       (projr (snd (compile sampleExternals emptyHeap ''*'' sampleOptions None))) = None"
proof -
  have ct: "compileToken sampleExternals emptyHeap
       [[Pseudo ''scope'' Null, Adjacent, Tag ''a''], [Tag ''b'']] sampleOptions None
     = (emptyHeap, [[Pseudo ''scope'' Null, Adjacent, Tag ''a''], [Tag ''b'']],
        Inr \<lparr>query = Combine (Extern (\<lambda>elem h1. (False, h1))) (Extern (\<lambda>elem h1. (False, h1))),
             shouldTestNextSiblings = Some True\<rparr>)"
    by (rule sample_scope_adjacent)
  have hit: "list_ex scopeThenSibling [[Pseudo ''scope'' Null, Adjacent, Tag ''a''], [Tag ''b'']]"
    by (simp add: scopeThenSibling_def isScopePseudo_def)
  have same: "list_ex scopeThenSibling [[Pseudo ''scope'' Null, Adjacent, Tag ''a''], [Tag ''b'']]
      = list_ex scopeThenSibling (preparedGroups sampleExternals emptyHeap
          [[Pseudo ''scope'' Null, Adjacent, Tag ''a''], [Tag ''b'']] sampleOptions None)"
    using ct compileToken_flag
      [of sampleExternals emptyHeap "[[Pseudo ''scope'' Null, Adjacent, Tag ''a''], [Tag ''b'']]"
         sampleOptions None emptyHeap
         "[[Pseudo ''scope'' Null, Adjacent, Tag ''a''], [Tag ''b'']]"
         "\<lparr>query = Combine (Extern (\<lambda>elem h1. (False, h1)))
                            (Extern (\<lambda>elem h1. (False, h1))),
                   shouldTestNextSiblings = Some True\<rparr>"]
    by blast
  have wrapped: "shouldTestNextSiblings
       (projr (snd (compile sampleExternals emptyHeap ''*'' sampleOptions None))) = None"
    using sample_compile_universal compileToken_flag
      [of sampleExternals emptyHeap _ sampleOptions None emptyHeap _
         "\<lparr>query = Base sampleAdapter trueFunc, shouldTestNextSiblings = None\<rparr>" "''*''"]
    by simp
  from ct hit same wrapped show ?thesis
    by simp
qed

text \<open>
  Claim C2 as stated fails for \<^verbatim>\<open>compile\<close>: for \<^verbatim>\<open>:scope + a\<close>, whose second node
  after \<^verbatim>\<open>:scope\<close> is the adjacent traversal, the function that \<^verbatim>\<open>compile\<close> returns
  carries no \<^verbatim>\<open>shouldTestNextSiblings\<close>; the function that \<^verbatim>\<open>compileUnsafe\<close>
  returns carries it, set to true.
\<close>

theorem compile_flag_counterexample:
  "parse sampleExternals '':scope + a'' sampleOptions
     = Inr [[Pseudo ''scope'' Null, Adjacent, Tag ''a'']] \<and>
   \<not> isl (snd (compile sampleExternals emptyHeap '':scope + a'' sampleOptions None)) \<and>
   shouldTestNextSiblings
       (projr (snd (compile sampleExternals emptyHeap '':scope + a'' sampleOptions None)))
     = None \<and>
   shouldTestNextSiblings
       (projr (snd (compileUnsafe sampleExternals emptyHeap '':scope + a'' sampleOptions None)))
     = Some True"
  by (simp add: sample_compile_scope_adjacent sample_compileUnsafe_scope_adjacent)
     (simp add: sampleExternals_def)

subsection \<open>The always-matching function\<close>

text \<open>
  Claim C5, as the code has it: \<^verbatim>\<open>compileToken\<close> returns the reduction of the groups'
  predicates, and that is \<^verbatim>\<open>trueFunc\<close> itself exactly when the predicate of at least
  one group is \<^verbatim>\<open>trueFunc\<close>; no closure stands in for it. The entry point
  \<^verbatim>\<open>compile\<close> hands back the closure \<^verbatim>\<open>base\<close> around the result of
  \<^verbatim>\<open>compileUnsafe\<close>, which is never \<^verbatim>\<open>trueFunc\<close>.
\<close>

theorem compileToken_sentinel:
  "(compileToken E h token options context = (h', tk, Inr r) \<longrightarrow>
      (\<exists>qs flag. compiledGroups E h token options context = (h', tk, Inr (qs, flag)) \<and>
         query r = foldl reduceRules falseFunc qs \<and>
         (query r = trueFunc \<longleftrightarrow> trueFunc \<in> set qs))) \<and>
   (compile E h selector options context = (h', Inr r) \<longrightarrow>
      (\<exists>next. compileUnsafe E h selector options context = (h', Inr next) \<and>
         query r = Base (adapter options) (query next)) \<and>
      query r \<noteq> trueFunc)"
proof -
  have token_case: "\<exists>qs flag. compiledGroups E h token options context = (h', tk, Inr (qs, flag)) \<and>
         query r = foldl reduceRules falseFunc qs \<and>
         (query r = trueFunc \<longleftrightarrow> trueFunc \<in> set qs)"
    if "compileToken E h token options context = (h', tk, Inr r)"
  proof -
    from that obtain qs flag where
      cg: "compiledGroups E h token options context = (h', tk, Inr (qs, flag))"
      and q: "query r = foldl reduceRules falseFunc qs"
      using compileToken_success by blast
    from q have "query r = trueFunc \<longleftrightarrow> trueFunc \<in> set qs"
      by (simp add: foldl_reduceRules_true)
    with cg q show ?thesis by blast
  qed
  have compile_case: "(\<exists>next. compileUnsafe E h selector options context = (h', Inr next) \<and>
         query r = Base (adapter options) (query next)) \<and>
      query r \<noteq> trueFunc"
    if "compile E h selector options context = (h', Inr r)"
    using compile_wraps [OF that] by auto
  from token_case compile_case show ?thesis
    by blast
qed

text \<open>
  The groups \<^verbatim>\<open>*, b\<close>: the first group compiles to \<^verbatim>\<open>trueFunc\<close> and so does the
  list. Through \<^verbatim>\<open>compile\<close>, \<^verbatim>\<open>*\<close> gives the closure \<^verbatim>\<open>base\<close> around it.
\<close>

theorem compileToken_sentinel_witness:
  "compileToken sampleExternals emptyHeap [[Universal], [Tag ''b'']] sampleOptions None
     = (emptyHeap, [[Universal], [Tag ''b'']],
        Inr \<lparr>query = trueFunc, shouldTestNextSiblings = Some False\<rparr>) \<and>
   trueFunc \<in> set (fst (projr (snd (snd (compiledGroups sampleExternals emptyHeap
       [[Universal], [Tag ''b'']] sampleOptions None))))) \<and>
   query (projr (snd (compile sampleExternals emptyHeap ''*'' sampleOptions None)))
     = Base sampleAdapter trueFunc"
proof -
  have ct: "compileToken sampleExternals emptyHeap [[Universal], [Tag ''b'']] sampleOptions None
     = (emptyHeap, [[Universal], [Tag ''b'']],
        Inr \<lparr>query = trueFunc, shouldTestNextSiblings = Some False\<rparr>)"
    by (rule sample_compileToken_universal)
  obtain qs flag where
    cg: "compiledGroups sampleExternals emptyHeap [[Universal], [Tag ''b'']]
            sampleOptions None = (emptyHeap, [[Universal], [Tag ''b'']], Inr (qs, flag))"
    and among_qs: "trueFunc \<in> set qs"
    using compileToken_sentinel
      [of sampleExternals emptyHeap "[[Universal], [Tag ''b'']]" sampleOptions None emptyHeap
         "[[Universal], [Tag ''b'']]"
         "\<lparr>query = trueFunc, shouldTestNextSiblings = Some False\<rparr>",
       THEN conjunct1, THEN mp, OF ct]
    by auto
  from cg among_qs have among: "trueFunc \<in> set (fst (projr (snd (snd (compiledGroups sampleExternals
       emptyHeap [[Universal], [Tag ''b'']] sampleOptions None)))))"
    by simp
  have wrapped: "query (projr (snd (compile sampleExternals emptyHeap ''*'' sampleOptions None)))
     = Base sampleAdapter trueFunc"
    by (simp add: sample_compile_universal)
  from ct among wrapped show ?thesis
    by simp
qed

text \<open>
  Claim C5 as stated fails for \<^verbatim>\<open>compile\<close>: the selector \<^verbatim>\<open>*\<close> is unconditionally
  true and \<^verbatim>\<open>compileUnsafe\<close> returns \<^verbatim>\<open>trueFunc\<close> for it, but \<^verbatim>\<open>compile\<close> hands back
  a new closure.
\<close>

theorem compile_sentinel_counterexample:
  "query (projr (snd (compileUnsafe sampleExternals emptyHeap ''*'' sampleOptions None)))
     = trueFunc \<and>
   \<not> isl (snd (compile sampleExternals emptyHeap ''*'' sampleOptions None)) \<and>
   query (projr (snd (compile sampleExternals emptyHeap ''*'' sampleOptions None)))
     = Base sampleAdapter trueFunc \<and>
   query (projr (snd (compile sampleExternals emptyHeap ''*'' sampleOptions None)))
     \<noteq> trueFunc"
  by (simp add: sample_compile_universal sample_compileUnsafe_universal)

subsection \<open>The flexible descendant\<close>



section \<open>The pseudo-class \<^verbatim>\<open>:not\<close>\<close>

lemma deriveOpts_ignores:
  "deriveOpts (options\<lparr>rootFunc := rf, options_context := oc\<rparr>) = deriveOpts options"
  by (simp add: deriveOpts_def)

lemma filters_not_result:
  assumes "\<not> (strict options \<and> (length token > 1 \<or> list_ex containsTraversal token))"
  shows "filters_not E h next token options context =
     (case compileToken E h token (deriveOpts options) context of
        (h1, tk, Inl e) \<Rightarrow> (h1, Inl e)
      | (h1, tk, Inr r) \<Rightarrow>
          (h1, Inr (if query r = falseFunc then next
                    else if query r = trueFunc then falseFunc
                    else Not_fn (query r) next)))"
proof -
  have no: "\<not> (strict (deriveOpts options) \<and>
      (length token > 1 \<or> list_ex containsTraversal token))"
    using assms by (simp add: deriveOpts_def)
  have "filters_not E h next token options context =
     (case compileToken E h token (deriveOpts options) context of
        (h1, tk, Inl e) \<Rightarrow> (h1, Inl e)
      | (h1, tk, Inr r) \<Rightarrow>
          (h1, Inr (if isFalseFunc (query r) then next
                    else if isTrueFunc (query r) then falseFunc
                    else Not_fn (query r) next)))"
    unfolding filters_not_def Let_def by (simp only: no if_False)
  then show ?thesis
    by (simp split: prod.splits sum.splits)
qed





lemma sample_not_without_context:
  "filters_not sampleExternals sampleHeap trueFunc [[Universal]] sampleOptions None
     = (sampleHeap, Inr falseFunc)"
  by (simp add: filters_not_def deriveOpts_def sample_simps)

lemma sample_not_with_context:
  "filters_not sampleExternals sampleHeap trueFunc [[Universal]] sampleOptions
       (Some (ArrayRef 0))
     = (sampleHeap, Inr (Not_fn (Extern (\<lambda>elem h1. (False, h1))) trueFunc))"
  by (simp add: filters_not_def deriveOpts_def sample_simps)


text \<open>
  Claim C3, as the code has it: the options of the nested compilation hold only
  \<^verbatim>\<open>xmlMode\<close>, \<^verbatim>\<open>strict\<close> and \<^verbatim>\<open>adapter\<close>, so the root function and the
  \<^verbatim>\<open>context\<close> field of the outer options are dropped and the result does not depend on
  them; but the context argument that \<^verbatim>\<open>:not\<close> received is passed on unchanged as the
  context argument of the nested compilation.
\<close>

theorem filters_not_options:
  "filters_not E h next token (options\<lparr>rootFunc := rf, options_context := oc\<rparr>) context
     = filters_not E h next token options context \<and>
   (\<not> (strict options \<and> (length token > 1 \<or> list_ex containsTraversal token)) \<longrightarrow>
      filters_not E h next token options context =
        (case compileToken E h token
                \<lparr>xmlMode = xmlMode options, strict = strict options, rootFunc = None,
                 options_context = None, adapter = adapter options\<rparr> context of
           (h1, tk, Inl e) \<Rightarrow> (h1, Inl e)
         | (h1, tk, Inr r) \<Rightarrow>
             (h1, Inr (if query r = falseFunc then next
                       else if query r = trueFunc then falseFunc
                       else Not_fn (query r) next))))"
proof (rule conjI)
  show "filters_not E h next token (options\<lparr>rootFunc := rf, options_context := oc\<rparr>) context
     = filters_not E h next token options context"
    by (simp add: filters_not_def deriveOpts_ignores)
next
  show "\<not> (strict options \<and> (length token > 1 \<or> list_ex containsTraversal token)) \<longrightarrow>
      filters_not E h next token options context =
        (case compileToken E h token
                \<lparr>xmlMode = xmlMode options, strict = strict options, rootFunc = None,
                 options_context = None, adapter = adapter options\<rparr> context of
           (h1, tk, Inl e) \<Rightarrow> (h1, Inl e)
         | (h1, tk, Inr r) \<Rightarrow>
             (h1, Inr (if query r = falseFunc then next
                       else if query r = trueFunc then falseFunc
                       else Not_fn (query r) next)))"
    using filters_not_result [of options token E h "next" "context"]
    by (simp add: deriveOpts_def)
qed

text \<open>
  \<^verbatim>\<open>:not(*)\<close> under options that carry a root function and a context: both are
  dropped, and the result is that of the plain options. With the array \<^verbatim>\<open>[node 1]\<close> as
  context argument the nested group is absolutized, and the result is another.
\<close>

theorem filters_not_options_witness:
  "filters_not sampleExternals sampleHeap trueFunc [[Universal]]
       (sampleOptions\<lparr>rootFunc := Some falseFunc, options_context := Some (ArrayRef 0)\<rparr>) None
     = (sampleHeap, Inr falseFunc) \<and>
   \<not> (strict sampleOptions \<and>
        (length [[Universal]] > 1 \<or> list_ex containsTraversal [[Universal]])) \<and>
   filters_not sampleExternals sampleHeap trueFunc [[Universal]] sampleOptions
       (Some (ArrayRef 0))
     = (case compileToken sampleExternals sampleHeap [[Universal]]
               \<lparr>xmlMode = False, strict = False, rootFunc = None, options_context = None,
                adapter = sampleAdapter\<rparr> (Some (ArrayRef 0)) of
          (h1, tk, Inl e) \<Rightarrow> (h1, Inl e)
        | (h1, tk, Inr r) \<Rightarrow>
            (h1, Inr (if query r = falseFunc then trueFunc
                      else if query r = trueFunc then falseFunc
                      else Not_fn (query r) trueFunc)))"
proof -
  have plain: "\<not> (strict sampleOptions \<and>
        (length [[Universal]] > 1 \<or> list_ex containsTraversal [[Universal]]))"
    by (simp add: sampleOptions_def)
  have fields: "xmlMode sampleOptions = False" "strict sampleOptions = False"
    "adapter sampleOptions = sampleAdapter"
    by (simp_all add: sampleOptions_def)
  from filters_not_options
    [of sampleExternals sampleHeap trueFunc "[[Universal]]" "Some (ArrayRef 0)"
       "Some falseFunc" sampleOptions None]
  have dropped: "filters_not sampleExternals sampleHeap trueFunc [[Universal]]
       (sampleOptions\<lparr>rootFunc := Some falseFunc, options_context := Some (ArrayRef 0)\<rparr>) None
     = (sampleHeap, Inr falseFunc)"
    by (simp add: sample_not_without_context)
  from plain filters_not_options
    [of sampleExternals sampleHeap trueFunc "[[Universal]]" _ _ sampleOptions
       "Some (ArrayRef 0)"]
  have passed: "filters_not sampleExternals sampleHeap trueFunc [[Universal]] sampleOptions
       (Some (ArrayRef 0))
     = (case compileToken sampleExternals sampleHeap [[Universal]]
               \<lparr>xmlMode = False, strict = False, rootFunc = None, options_context = None,
                adapter = sampleAdapter\<rparr> (Some (ArrayRef 0)) of
          (h1, tk, Inl e) \<Rightarrow> (h1, Inl e)
        | (h1, tk, Inr r) \<Rightarrow>
            (h1, Inr (if query r = falseFunc then trueFunc
                      else if query r = trueFunc then falseFunc
                      else Not_fn (query r) trueFunc)))"
    by (simp only: fields) blast
  from dropped plain passed show ?thesis
    by blast
qed

text \<open>
  Claim C3 as stated fails: the context is not dropped. \<^verbatim>\<open>:not(*)\<close> compiled with the
  array \<^verbatim>\<open>[node 1]\<close> as context argument differs from \<^verbatim>\<open>:not(*)\<close> compiled with no
  context, which is \<^verbatim>\<open>falseFunc\<close>.
\<close>

theorem filters_not_context_counterexample:
  "filters_not sampleExternals sampleHeap trueFunc [[Universal]] sampleOptions
       (Some (ArrayRef 0))
     \<noteq> filters_not sampleExternals sampleHeap trueFunc [[Universal]] sampleOptions None \<and>
   snd (filters_not sampleExternals sampleHeap trueFunc [[Universal]] sampleOptions None)
     = Inr falseFunc \<and>
   snd (filters_not sampleExternals sampleHeap trueFunc [[Universal]] sampleOptions
       (Some (ArrayRef 0)))
     \<noteq> Inr falseFunc"
  by (simp add: sample_not_without_context sample_not_with_context)


lemma sample_nested_builder:
  "Rules (dispatchExternals (Suc 0)) emptyHeap trueFunc
       (Pseudo ''not'' (Sub [[Tag ''a'', Child, Tag ''b'']]))
       (deriveOpts (sampleOptions\<lparr>strict := True\<rparr>)) None
     = (emptyHeap, Inl StrictModeViolation)"
  by (simp add: filters_not_def deriveOpts_def dispatchExternals_def containsTraversal_def
      sample_simps)




section \<open>The pseudo-class \<^verbatim>\<open>:has\<close>\<close>

lemma hasSlot_cases:
  "hasSlot h token =
     (if list_ex containsTraversal token then
        (h\<lparr>cells := (cells h)(nextAddr h \<mapsto> [PLACEHOLDER_ELEMENT]),
           nextAddr := Suc (nextAddr h)\<rparr>, Some (nextAddr h))
      else (h, None))"
  by (simp add: hasSlot_def alloc_def)

lemma filters_has_result:
  assumes slot: "hasSlot h token = (h1, slot)"
    and nested: "compileToken E h1 token (deriveOpts options) (map_option ArrayRef slot)
                   = (h2, tk, Inr r)"
  shows "filters_has E h next token options =
     (h2, Inr (if query r = falseFunc then falseFunc
               else if query r = trueFunc then HasChild (adapter options) next
               else Has (adapter options) next (Base (adapter options) (query r)) slot))"
  using slot nested by (simp add: filters_has_def wrap_def)

lemma sample_hasSlot:
  "hasSlot emptyHeap [[Child, Tag ''span'']] = (slotHeap, Some 0)"
  by (simp add: hasSlot_cases containsTraversal_def isTraversal_def emptyHeap_def slotHeap_def
      fun_eq_iff)

lemma sample_has_nested:
  "compileToken sampleExternals slotHeap [[Child, Tag ''span'']] (deriveOpts sampleOptions)
       (map_option ArrayRef (Some 0))
     = (slotHeap, [[Pseudo ''scope'' Null, Child, Tag ''span'']],
        Inr \<lparr>query = Extern (\<lambda>elem h1. (False, h1)), shouldTestNextSiblings = Some False\<rparr>)"
  by (simp add: sample_simps deriveOpts_def slotHeap_def)

lemma sample_has_universal:
  "filters_has sampleExternals emptyHeap trueFunc [[Universal]] sampleOptions
     = (emptyHeap, Inr (HasChild sampleAdapter trueFunc))"
  by (simp add: filters_has_def hasSlot_cases containsTraversal_def deriveOpts_def sample_simps)

text \<open>
  Claim C8: \<^verbatim>\<open>:has\<close> allocates its one-entry array, holding the placeholder, exactly
  when its argument holds a traversal. When the argument compiles to \<^verbatim>\<open>falseFunc\<close>
  the result is \<^verbatim>\<open>falseFunc\<close>. When it compiles to \<^verbatim>\<open>trueFunc\<close> the result is true
  exactly when the element has a tag child and the continuation holds. Otherwise a call
  of the result calls the continuation first and, when that holds, writes the element
  into the array if there is one and then asks the adapter's \<^verbatim>\<open>existsOne\<close> over the
  element's children with the compiled argument guarded by the tag test.
\<close>

theorem filters_has_cases:
  "(snd (hasSlot h token) \<noteq> None \<longleftrightarrow> list_ex containsTraversal token) \<and>
   (list_ex containsTraversal token \<longrightarrow>
      snd (hasSlot h token) = Some (nextAddr h) \<and>
      cells (fst (hasSlot h token)) (nextAddr h) = Some [PLACEHOLDER_ELEMENT] \<and>
      nextAddr (fst (hasSlot h token)) = Suc (nextAddr h)) \<and>
   (\<not> list_ex containsTraversal token \<longrightarrow> hasSlot h token = (h, None)) \<and>
   (hasSlot h token = (h1, slot) \<and>
    compileToken E h1 token (deriveOpts options) (map_option ArrayRef slot) = (h2, tk, Inr r)
      \<longrightarrow>
      (\<exists>q. filters_has E h next token options = (h2, Inr q) \<and>
         (query r = falseFunc \<longrightarrow> q = falseFunc) \<and>
         (query r = trueFunc \<longrightarrow>
            (\<forall>elem s.
               call q elem s =
                 (if list_ex (isTag (adapter options)) (getChildren (adapter options) elem)
                  then call next elem s else (False, s)) \<and>
               (fst (call q elem s) \<longleftrightarrow>
                  list_ex (isTag (adapter options)) (getChildren (adapter options) elem) \<and>
                  fst (call next elem s)))) \<and>
         (query r \<noteq> falseFunc \<and> query r \<noteq> trueFunc \<longrightarrow>
            (\<forall>elem s.
               call q elem s =
                 (case call next elem s of
                    (False, s1) \<Rightarrow> (False, s1)
                  | (True, s1) \<Rightarrow>
                      existsOne (adapter options)
                        (\<lambda>child s2. if isTag (adapter options) child
                                     then call (query r) child s2 else (False, s2))
                        (getChildren (adapter options) elem)
                        (case slot of Some a \<Rightarrow> write0 s1 a elem | None \<Rightarrow> s1))))))"
proof (intro conjI impI)
  show "snd (hasSlot h token) \<noteq> None \<longleftrightarrow> list_ex containsTraversal token"
    by (simp add: hasSlot_cases)
next
  assume "list_ex containsTraversal token"
  then show "snd (hasSlot h token) = Some (nextAddr h)"
    and "cells (fst (hasSlot h token)) (nextAddr h) = Some [PLACEHOLDER_ELEMENT]"
    and "nextAddr (fst (hasSlot h token)) = Suc (nextAddr h)"
    by (simp_all add: hasSlot_cases)
next
  assume "\<not> list_ex containsTraversal token"
  then show "hasSlot h token = (h, None)"
    by (simp add: hasSlot_cases)
next
  assume run: "hasSlot h token = (h1, slot) \<and>
    compileToken E h1 token (deriveOpts options) (map_option ArrayRef slot) = (h2, tk, Inr r)"
  define q where "q = (if query r = falseFunc then falseFunc
               else if query r = trueFunc then HasChild (adapter options) next
               else Has (adapter options) next (Base (adapter options) (query r)) slot)"
  have res: "filters_has E h next token options = (h2, Inr q)"
    using run filters_has_result [of h token h1 slot E options h2 tk r "next"]
    by (simp add: q_def)
  have never: "query r = falseFunc \<longrightarrow> q = falseFunc"
    by (simp add: q_def)
  have always: "query r = trueFunc \<longrightarrow>
            (\<forall>elem s.
               call q elem s =
                 (if list_ex (isTag (adapter options)) (getChildren (adapter options) elem)
                  then call next elem s else (False, s)) \<and>
               (fst (call q elem s) \<longleftrightarrow>
                  list_ex (isTag (adapter options)) (getChildren (adapter options) elem) \<and>
                  fst (call next elem s)))"
    by (simp add: q_def)
  have search: "query r \<noteq> falseFunc \<and> query r \<noteq> trueFunc \<longrightarrow>
            (\<forall>elem s.
               call q elem s =
                 (case call next elem s of
                    (False, s1) \<Rightarrow> (False, s1)
                  | (True, s1) \<Rightarrow>
                      existsOne (adapter options)
                        (\<lambda>child s2. if isTag (adapter options) child
                                     then call (query r) child s2 else (False, s2))
                        (getChildren (adapter options) elem)
                        (case slot of Some a \<Rightarrow> write0 s1 a elem | None \<Rightarrow> s1)))"
    by (simp add: q_def split: prod.splits bool.splits)
  from res never always search
  show "\<exists>q. filters_has E h next token options = (h2, Inr q) \<and>
         (query r = falseFunc \<longrightarrow> q = falseFunc) \<and>
         (query r = trueFunc \<longrightarrow>
            (\<forall>elem s.
               call q elem s =
                 (if list_ex (isTag (adapter options)) (getChildren (adapter options) elem)
                  then call next elem s else (False, s)) \<and>
               (fst (call q elem s) \<longleftrightarrow>
                  list_ex (isTag (adapter options)) (getChildren (adapter options) elem) \<and>
                  fst (call next elem s)))) \<and>
         (query r \<noteq> falseFunc \<and> query r \<noteq> trueFunc \<longrightarrow>
            (\<forall>elem s.
               call q elem s =
                 (case call next elem s of
                    (False, s1) \<Rightarrow> (False, s1)
                  | (True, s1) \<Rightarrow>
                      existsOne (adapter options)
                        (\<lambda>child s2. if isTag (adapter options) child
                                     then call (query r) child s2 else (False, s2))
                        (getChildren (adapter options) elem)
                        (case slot of Some a \<Rightarrow> write0 s1 a elem | None \<Rightarrow> s1))))"
    by blast
qed

text \<open>
  \<^verbatim>\<open>:has(> span)\<close>: the argument holds a traversal, the array is allocated at address
  0 and the result is the closure \<^verbatim>\<open>has\<close>; called on node 1 it writes node 1 into the
  array and then searches the children. \<^verbatim>\<open>:has(*)\<close>: no array, the argument compiles
  to \<^verbatim>\<open>trueFunc\<close> and the result asks for a tag child.
\<close>

theorem filters_has_cases_witness:
  "list_ex containsTraversal [[Child, Tag ''span'']] \<and>
   hasSlot emptyHeap [[Child, Tag ''span'']] = (slotHeap, Some 0) \<and>
   filters_has sampleExternals emptyHeap trueFunc [[Child, Tag ''span'']] sampleOptions
     = (slotHeap,
        Inr (Has sampleAdapter trueFunc (Base sampleAdapter (Extern (\<lambda>elem h1. (False, h1))))
               (Some 0))) \<and>
   call (Has sampleAdapter trueFunc (Base sampleAdapter (Extern (\<lambda>elem h1. (False, h1))))
           (Some 0)) (Node 1) slotHeap
     = (False, write0 slotHeap 0 (Node 1)) \<and>
   cells (write0 slotHeap 0 (Node 1)) 0 = Some [Node 1] \<and>
   \<not> list_ex containsTraversal [[Universal]] \<and>
   filters_has sampleExternals emptyHeap trueFunc [[Universal]] sampleOptions
     = (emptyHeap, Inr (HasChild sampleAdapter trueFunc)) \<and>
   call (HasChild sampleAdapter trueFunc) (Node 1) emptyHeap = (True, emptyHeap) \<and>
   call (HasChild sampleAdapter trueFunc) (Node 3) emptyHeap = (False, emptyHeap)"
proof -
  have ad: "adapter sampleOptions = sampleAdapter"
    by (simp add: sampleOptions_def)
  have trav: "list_ex containsTraversal [[Child, Tag ''span'']]"
    by (simp add: containsTraversal_def isTraversal_def)
  have plain: "\<not> list_ex containsTraversal [[Universal]]"
    by (simp add: containsTraversal_def isTraversal_def)
  have built: "filters_has sampleExternals emptyHeap trueFunc [[Child, Tag ''span'']]
       sampleOptions
     = (slotHeap,
        Inr (Has sampleAdapter trueFunc (Base sampleAdapter (Extern (\<lambda>elem h1. (False, h1))))
               (Some 0)))"
    using sample_hasSlot sample_has_nested
    by (simp add: filters_has_def wrap_def ad)
  have run: "call (Has sampleAdapter trueFunc
        (Base sampleAdapter (Extern (\<lambda>elem h1. (False, h1)))) (Some 0)) (Node 1) slotHeap
      = (False, write0 slotHeap 0 (Node 1))"
    using built filters_has_cases
      [of emptyHeap "[[Child, Tag ''span'']]" slotHeap "Some 0" sampleExternals sampleOptions
         slotHeap "[[Pseudo ''scope'' Null, Child, Tag ''span'']]"
         "\<lparr>query = Extern (\<lambda>elem h1. (False, h1)), shouldTestNextSiblings = Some False\<rparr>"
         trueFunc,
       THEN conjunct2, THEN conjunct2, THEN conjunct2, THEN mp,
       OF conjI [OF sample_hasSlot sample_has_nested]]
    by (simp add: ad sampleAdapter_def)
  have written: "cells (write0 slotHeap 0 (Node 1)) 0 = Some [Node 1]"
    by (simp add: write0_def slotHeap_def)
  have child: "call (HasChild sampleAdapter trueFunc) (Node 1) emptyHeap = (True, emptyHeap)"
    and leaf: "call (HasChild sampleAdapter trueFunc) (Node 3) emptyHeap = (False, emptyHeap)"
    by (simp_all add: sampleAdapter_def)
  from trav plain built run written sample_hasSlot sample_has_universal child leaf
  show ?thesis
    by simp
qed

end
